theory Spec2Isabelle
  imports Complex_Main
begin

section \<open>Strings and regular expressions\<close>

text \<open>
  A Python \<open>str\<close> is modelled as a \<open>string\<close>, one \<open>char\<close> per code point (code points
  0 to 255). The two patterns of \<^verbatim>\<open>main.py\<close> only name ASCII characters; which
  non-ASCII code points the class \<^verbatim>\<open>\w\<close> accepts is decided by Python's Unicode
  tables, which are a parameter (\<open>uw\<close>) of the model.
\<close>

definition illegal_chars :: "char list" where
  \<comment> \<open>the class \<^verbatim>\<open>[\\/*?:"<>|]\<close>: backslash, slash, star, question mark, colon,
      double quote, less, greater, bar\<close>
  "illegal_chars =
     [CHR 0x5C, CHR ''/'', CHR ''*'', CHR ''?'', CHR '':'', CHR 0x22, CHR ''<'', CHR ''>'', CHR ''|'']"

primrec re_sub_class :: "char list \<Rightarrow> string \<Rightarrow> string \<Rightarrow> string" where
  \<comment> \<open>\<^verbatim>\<open>re.sub\<close> for a pattern that is one character class: scan left to right,
      put \<open>repl\<close> for every character of the class\<close>
  "re_sub_class cls repl [] = []"
| "re_sub_class cls repl (c # cs) =
     (if c \<in> set cls then repl @ re_sub_class cls repl cs else c # re_sub_class cls repl cs)"

definition sanitize_filename :: "string \<Rightarrow> string" where
  "sanitize_filename title_text = re_sub_class illegal_chars ''_'' title_text"

datatype rx = Nul | Eps | Chr char | Cls "char \<Rightarrow> bool" | Seq rx rx | Alt rx rx | Star rx

primrec nullable :: "rx \<Rightarrow> bool" where
  "nullable Nul = False"
| "nullable Eps = True"
| "nullable (Chr c) = False"
| "nullable (Cls p) = False"
| "nullable (Seq r s) = (nullable r \<and> nullable s)"
| "nullable (Alt r s) = (nullable r \<or> nullable s)"
| "nullable (Star r) = True"

primrec deriv :: "char \<Rightarrow> rx \<Rightarrow> rx" where
  "deriv c Nul = Nul"
| "deriv c Eps = Nul"
| "deriv c (Chr d) = (if c = d then Eps else Nul)"
| "deriv c (Cls p) = (if p c then Eps else Nul)"
| "deriv c (Seq r s) =
     (if nullable r then Alt (Seq (deriv c r) s) (deriv c s) else Seq (deriv c r) s)"
| "deriv c (Alt r s) = Alt (deriv c r) (deriv c s)"
| "deriv c (Star r) = Seq (deriv c r) (Star r)"

primrec lit :: "string \<Rightarrow> rx" where
  "lit [] = Eps"
| "lit (c # cs) = Seq (Chr c) (lit cs)"

definition opt :: "rx \<Rightarrow> rx" where
  \<comment> \<open>\<^verbatim>\<open>r?\<close>\<close>
  "opt r = Alt r Eps"

definition plus_rx :: "rx \<Rightarrow> rx" where
  \<comment> \<open>\<^verbatim>\<open>r+\<close>\<close>
  "plus_rx r = Seq r (Star r)"

primrec fullmatch :: "rx \<Rightarrow> string \<Rightarrow> bool" where
  \<comment> \<open>the whole string is a word of the pattern\<close>
  "fullmatch r [] = nullable r"
| "fullmatch r (c # cs) = fullmatch (deriv c r) cs"

primrec re_match :: "rx \<Rightarrow> string \<Rightarrow> bool" where
  \<comment> \<open>\<^verbatim>\<open>re.match\<close>: anchored at the start only; succeeds as soon as the characters
      read so far are a word of the pattern\<close>
  "re_match r [] = nullable r"
| "re_match r (c # cs) = (nullable r \<or> re_match (deriv c r) cs)"

definition word_char :: "(char \<Rightarrow> bool) \<Rightarrow> char \<Rightarrow> bool" where
  \<comment> \<open>\<^verbatim>\<open>\w\<close>: ASCII letters, digits and underscore; beyond ASCII, what \<open>uw\<close> says\<close>
  "word_char uw c =
     (let n = (of_char c :: nat)
      in if n < 128
         then (48 \<le> n \<and> n \<le> 57) \<or> (65 \<le> n \<and> n \<le> 90) \<or> (97 \<le> n \<and> n \<le> 122) \<or> c = CHR ''_''
         else uw c)"

definition playlist_pattern :: "(char \<Rightarrow> bool) \<Rightarrow> rx" where
  \<comment> \<open>\<^verbatim>\<open>(https?://)?(www\.)?(youtube\.com/playlist\?list=|youtu\.be/)[\w-]+\<close>\<close>
  "playlist_pattern uw =
     Seq (opt (Seq (lit ''http'') (Seq (opt (Chr CHR ''s'')) (lit ''://''))))
    (Seq (opt (lit ''www.''))
    (Seq (Alt (lit ''youtube.com/playlist?list='') (lit ''youtu.be/''))
         (plus_rx (Cls (\<lambda>c. word_char uw c \<or> c = CHR ''-'')))))"

section \<open>Exceptions\<close>

datatype exn =
    ValueError string
  | Exception string      \<comment> \<open>any other instance of \<^verbatim>\<open>Exception\<close>\<close>
  | BaseException string  \<comment> \<open>not an \<^verbatim>\<open>Exception\<close>: \<^verbatim>\<open>KeyboardInterrupt\<close>, \<^verbatim>\<open>SystemExit\<close>\<close>

fun catchable :: "exn \<Rightarrow> bool" where
  \<comment> \<open>what \<^verbatim>\<open>except Exception\<close> catches\<close>
  "catchable (ValueError m) = True"
| "catchable (Exception m) = True"
| "catchable (BaseException m) = False"

fun str_exn :: "exn \<Rightarrow> string" where
  "str_exn (ValueError m) = m"
| "str_exn (Exception m) = m"
| "str_exn (BaseException m) = m"

definition validate_playlist_url :: "(char \<Rightarrow> bool) \<Rightarrow> string \<Rightarrow> exn + string" where
  "validate_playlist_url uw url =
     (if \<not> re_match (playlist_pattern uw) url
      then Inl (ValueError (''Invalid playlist URL format: '' @ url))
      else Inr url)"

section \<open>Configuration, videos, statistics\<close>

record config =
  PLAYLIST_URL :: string
  OUTPUT_FOLDER :: string
  RETRY_ATTEMPTS :: int
  RATE_LIMIT_DELAY :: real
  USE_PROXY :: bool
  PROXY_USER :: "string option"
  PROXY_PASS :: "string option"

text \<open>
  A video of the playlist. \<^verbatim>\<open>video.video_id\<close> is a plain attribute; \<^verbatim>\<open>video.title\<close>
  is a property of the playlist library that may raise, so the field holds what reading
  it gives.
\<close>

record video =
  video_id :: string
  title :: "exn + string"

record DownloadStats =
  total :: int
  success :: int
  skipped :: int
  failed :: int

definition success_rate :: "DownloadStats \<Rightarrow> real option" where
  \<comment> \<open>the \<^verbatim>\<open>Success Rate\<close> line of \<^verbatim>\<open>print_summary\<close>, printed only when \<open>total > 0\<close>\<close>
  "success_rate s =
     (if total s > 0 then Some ((real_of_int (success s + skipped s) / real_of_int (total s)) * 100)
      else None)"

section \<open>The world outside the program\<close>

type_synonym transcript = "string list"

datatype level = INFO | WARNING | ERROR

datatype logmsg =
    Rule
  | ToolTitle
  | OutputDirectory string
  | ProxyNoCredentials
  | ProxyRequired
  | ProxyHint
  | ApiWithProxy
  | ProxyConfigError string
  | ApiWithoutProxy
  | RateLimitNote
  | FetchingPlaylist string
  | FoundVideos nat
  | PlaylistError string
  | Skipping nat nat string
  | Processing nat nat string
  | Retry nat int real string
  | NoTranscript int
  | Saved
  | VideoError nat nat string
  | StartingDownloads
  | Summary DownloadStats "real option" string
  | Complete

datatype event =
    Fetch string "string list option"  \<comment> \<open>\<^verbatim>\<open>yt_api.fetch(video_id, languages=...)\<close>; \<open>None\<close>: no language given\<close>
  | Sleep real
  | OpenW string
  | Write string string
  | MakeDirs string
  | Construct "(string \<times> string) option"
  | Resolve string
  | Log level logmsg

record disk_file =
  content :: string
  mtime :: real

record world =
  files :: "string \<Rightarrow> disk_file option"
  clock :: real
  trace :: "event list"

text \<open>
  The configuration and the collaborators the program calls but does not define: the
  transcript service, the playlist library, the transcript formatter, the failures of the
  file system, and what other processes do to the files while the program sleeps. Each
  answer may depend on the whole world, the trace of earlier calls included.

  Time stamps are Python floats. A float is represented by the real number it denotes;
  comparing two floats is then comparing the reals, but subtracting them rounds, and
  the rounded subtraction of the doubles (\<open>float_sub\<close>) is taken from the environment.
\<close>

record env =
  cfg :: config
  unicode_word :: "char \<Rightarrow> bool"
  service :: "world \<Rightarrow> string \<Rightarrow> string list option \<Rightarrow> exn + transcript"
  format_transcript :: "transcript \<Rightarrow> exn + string"
  open_error :: "world \<Rightarrow> string \<Rightarrow> exn option"
  write_error :: "world \<Rightarrow> string \<Rightarrow> string \<Rightarrow> exn option"
  makedirs_error :: "world \<Rightarrow> string \<Rightarrow> exn option"
  construct_error :: "world \<Rightarrow> (string \<times> string) option \<Rightarrow> exn option"
  playlist_videos :: "world \<Rightarrow> string \<Rightarrow> exn + video list"
  meanwhile :: "world \<Rightarrow> real \<Rightarrow> string \<Rightarrow> disk_file option"
  float_sub :: "real \<Rightarrow> real \<Rightarrow> real"

definition emit :: "event \<Rightarrow> world \<Rightarrow> world" where
  "emit e w = w\<lparr>trace := trace w @ [e]\<rparr>"

definition logger :: "level \<Rightarrow> logmsg \<Rightarrow> world \<Rightarrow> world" where
  "logger lvl msg w = emit (Log lvl msg) w"

definition api_fetch :: "env \<Rightarrow> string \<Rightarrow> string list option \<Rightarrow> world \<Rightarrow> (exn + transcript) \<times> world" where
  "api_fetch E vid langs w = (service E w vid langs, emit (Fetch vid langs) w)"

definition sleep_overflows :: "real \<Rightarrow> bool" where
  \<comment> \<open>\<^verbatim>\<open>time.sleep\<close> first converts its argument to a signed 64-bit count of
      nanoseconds; this is the case in which that count does not fit (exact for an
      integer argument such as \<^verbatim>\<open>2**attempt\<close>)\<close>
  "sleep_overflows d = (d * 1000000000 > 9223372036854775807 \<or> d * 1000000000 < - 9223372036854775808)"

definition overflow_error :: exn where
  \<comment> \<open>\<^verbatim>\<open>OverflowError\<close>, an \<^verbatim>\<open>Exception\<close>\<close>
  "overflow_error = Exception ''timestamp too large to convert to C _PyTime_t''"

definition time_sleep :: "env \<Rightarrow> real \<Rightarrow> world \<Rightarrow> (exn + unit) \<times> world" where
  \<comment> \<open>\<^verbatim>\<open>time.sleep\<close> raises \<^verbatim>\<open>OverflowError\<close> on a length it cannot convert and
      \<^verbatim>\<open>ValueError\<close> on a negative one, in this order\<close>
  "time_sleep E d w =
     (if sleep_overflows d then (Inl overflow_error, w)
      else if d < 0 then (Inl (ValueError ''sleep length must be non-negative''), w)
      else (Inr (), emit (Sleep d) (w\<lparr>files := meanwhile E w d, clock := clock w + d\<rparr>)))"

definition path_exists :: "string \<Rightarrow> world \<Rightarrow> bool" where
  "path_exists p w = (files w p \<noteq> None)"

definition getmtime :: "string \<Rightarrow> world \<Rightarrow> exn + real" where
  "getmtime p w =
     (case files w p of None \<Rightarrow> Inl (Exception ''No such file or directory'') | Some f \<Rightarrow> Inr (mtime f))"

definition open_w :: "env \<Rightarrow> string \<Rightarrow> world \<Rightarrow> (exn + unit) \<times> world" where
  \<comment> \<open>\<^verbatim>\<open>open(path, "w")\<close>: creates the file or empties it\<close>
  "open_w E p w =
     (case open_error E w p of
        Some e \<Rightarrow> (Inl e, w)
      | None \<Rightarrow> (Inr (), emit (OpenW p) (w\<lparr>files := (files w)(p \<mapsto> \<lparr>content = [], mtime = clock w\<rparr>)\<rparr>)))"

definition file_write :: "env \<Rightarrow> string \<Rightarrow> string \<Rightarrow> world \<Rightarrow> (exn + unit) \<times> world" where
  "file_write E p data w =
     (case write_error E w p data of
        Some e \<Rightarrow> (Inl e, w)
      | None \<Rightarrow> (Inr (), emit (Write p data) (w\<lparr>files := (files w)(p \<mapsto> \<lparr>content = data, mtime = clock w\<rparr>)\<rparr>)))"

definition makedirs :: "env \<Rightarrow> string \<Rightarrow> world \<Rightarrow> (exn + unit) \<times> world" where
  "makedirs E p w =
     (case makedirs_error E w p of
        Some e \<Rightarrow> (Inl e, w)
      | None \<Rightarrow> (Inr (), emit (MakeDirs p) w))"

definition path_join :: "string \<Rightarrow> string \<Rightarrow> string" where
  \<comment> \<open>\<^verbatim>\<open>os.path.join\<close> (POSIX) of two components\<close>
  "path_join a b =
     (if b \<noteq> [] \<and> hd b = CHR ''/'' then b
      else if a = [] \<or> last a = CHR ''/'' then a @ b
      else a @ ''/'' @ b)"

definition output_file :: "string \<Rightarrow> string \<Rightarrow> string \<Rightarrow> string" where
  \<comment> \<open>\<^verbatim>\<open>os.path.join(output_folder, f"[{video_id}] - {title}.txt")\<close>\<close>
  "output_file output_folder vid title_text =
     path_join output_folder (''['' @ vid @ ''] - '' @ title_text @ ''.txt'')"

section \<open>The program\<close>

fun retry_loop :: "env \<Rightarrow> string \<Rightarrow> int \<Rightarrow> nat list \<Rightarrow> world \<Rightarrow> (exn + transcript option) \<times> world" where
  \<comment> \<open>\<^verbatim>\<open>for attempt in range(max_retries): ...\<close> followed by \<^verbatim>\<open>return None\<close>\<close>
  "retry_loop E vid max_retries [] w = (Inr None, w)"
| "retry_loop E vid max_retries (attempt # rest) w =
     (case api_fetch E vid (Some [''en'', ''en-US'']) w of
        (Inr t, w1) \<Rightarrow> (Inr (Some t), w1)
      | (Inl e, w1) \<Rightarrow>
          if \<not> catchable e then (Inl e, w1)
          else if int attempt = max_retries - 1 then
            (case api_fetch E vid None w1 of
               (Inr t, w2) \<Rightarrow> (Inr (Some t), w2)
             | (Inl e2, w2) \<Rightarrow>
                 if \<not> catchable e2 then (Inl e2, w2)
                 else (Inr None, logger ERROR (NoTranscript max_retries) w2))
          else
            (let wait_time = (2::real) ^ attempt;
                 w2 = logger WARNING (Retry (attempt + 1) max_retries wait_time (take 50 (str_exn e))) w1
             in case time_sleep E wait_time w2 of
                  (Inl e3, w3) \<Rightarrow> (Inl e3, w3)
                | (Inr u, w3) \<Rightarrow> retry_loop E vid max_retries rest w3))"

definition fetch_transcript_with_retry ::
  "env \<Rightarrow> string \<Rightarrow> int option \<Rightarrow> world \<Rightarrow> (exn + transcript option) \<times> world" where
  "fetch_transcript_with_retry E vid max_retries w =
     (let n = (case max_retries of None \<Rightarrow> RETRY_ATTEMPTS (cfg E) | Some m \<Rightarrow> m)
      in retry_loop E vid n [0..<nat n] w)"

definition falsy :: "string option \<Rightarrow> bool" where
  \<comment> \<open>\<^verbatim>\<open>not x\<close> for an optional string: \<^verbatim>\<open>None\<close> or the empty string\<close>
  "falsy x = (x = None \<or> x = Some [])"

definition initialize_api :: "env \<Rightarrow> world \<Rightarrow> (exn + unit option) \<times> world" where
  "initialize_api E w =
     (if USE_PROXY (cfg E) then
        (if falsy (PROXY_USER (cfg E)) \<or> falsy (PROXY_PASS (cfg E)) then
           (Inr None, logger INFO ProxyHint (logger INFO ProxyRequired (logger ERROR ProxyNoCredentials w)))
         else
           (let cred = Some (the (PROXY_USER (cfg E)), the (PROXY_PASS (cfg E)))
            in case construct_error E w cred of
                 Some e \<Rightarrow>
                   if catchable e then (Inr None, logger ERROR (ProxyConfigError (str_exn e)) w)
                   else (Inl e, w)
               | None \<Rightarrow> (Inr (Some ()), logger INFO ApiWithProxy (emit (Construct cred) w))))
      else
        (let w1 = logger WARNING RateLimitNote (logger INFO ApiWithoutProxy w)
         in case construct_error E w1 None of
              Some e \<Rightarrow> (Inl e, w1)
            | None \<Rightarrow> (Inr (Some ()), emit (Construct None) w1)))"

definition fetch_playlist :: "env \<Rightarrow> string \<Rightarrow> world \<Rightarrow> (exn + video list option) \<times> world" where
  "fetch_playlist E url w =
     (case validate_playlist_url (unicode_word E) url of
        Inl e \<Rightarrow> (Inr None, logger ERROR (PlaylistError (str_exn e)) w)
      | Inr validated_url \<Rightarrow>
          (let w1 = logger INFO (FetchingPlaylist validated_url) w
           in case playlist_videos E w1 validated_url of
                Inl e \<Rightarrow>
                  if catchable e then (Inr None, logger ERROR (PlaylistError (str_exn e)) w1)
                  else (Inl e, w1)
              | Inr vs \<Rightarrow> (Inr (Some vs), logger INFO (FoundVideos (length vs)) (emit (Resolve validated_url) w1))))"

definition process_video_body ::
  "env \<Rightarrow> video \<Rightarrow> nat \<Rightarrow> nat \<Rightarrow> string \<Rightarrow> world \<Rightarrow> (exn + bool) \<times> world" where
  \<comment> \<open>the \<^verbatim>\<open>try\<close> block of \<^verbatim>\<open>process_video\<close>\<close>
  "process_video_body E v index n output_folder w =
     (case title v of
        Inl e \<Rightarrow> (Inl e, w)
      | Inr raw \<Rightarrow>
          (let title_text = sanitize_filename raw;
               output_path = output_file output_folder (video_id v) title_text
           in if path_exists output_path w
              then (Inr True, logger INFO (Skipping index n (take 50 title_text)) w)
              else
                (case fetch_transcript_with_retry E (video_id v) None
                        (logger INFO (Processing index n (take 50 title_text)) w) of
                   (Inl e, w2) \<Rightarrow> (Inl e, w2)
                 | (Inr None, w2) \<Rightarrow> (Inr False, w2)
                 | (Inr (Some transcript_data), w2) \<Rightarrow>
                     (case format_transcript E transcript_data of
                        Inl e \<Rightarrow> (Inl e, w2)
                      | Inr formatted_text \<Rightarrow>
                          (case open_w E output_path w2 of
                             (Inl e, w3) \<Rightarrow> (Inl e, w3)
                           | (Inr u, w3) \<Rightarrow>
                               (case file_write E output_path formatted_text w3 of
                                  (Inl e, w4) \<Rightarrow> (Inl e, w4)
                                | (Inr u, w4) \<Rightarrow>
                                    (case time_sleep E (RATE_LIMIT_DELAY (cfg E)) (logger INFO Saved w4) of
                                       (Inl e, w5) \<Rightarrow> (Inl e, w5)
                                     | (Inr u, w5) \<Rightarrow> (Inr True, w5))))))))"

definition process_video ::
  "env \<Rightarrow> video \<Rightarrow> nat \<Rightarrow> nat \<Rightarrow> string \<Rightarrow> world \<Rightarrow> (exn + bool) \<times> world" where
  \<comment> \<open>the \<^verbatim>\<open>try\<close> block under its handler \<^verbatim>\<open>except Exception as e\<close>\<close>
  "process_video E v index n output_folder w =
     (case process_video_body E v index n output_folder w of
        (Inr b, w1) \<Rightarrow> (Inr b, w1)
      | (Inl e, w1) \<Rightarrow>
          if catchable e then (Inr False, logger ERROR (VideoError index n (take 80 (str_exn e))) w1)
          else (Inl e, w1))"

definition main_step ::
  "env \<Rightarrow> nat \<Rightarrow> nat \<Rightarrow> video \<Rightarrow> DownloadStats \<Rightarrow> world \<Rightarrow> (exn + DownloadStats) \<times> world" where
  \<comment> \<open>one iteration of the loop of \<^verbatim>\<open>main\<close>\<close>
  "main_step E i n v stats w =
     (case process_video E v i n (OUTPUT_FOLDER (cfg E)) w of
        (Inl e, w1) \<Rightarrow> (Inl e, w1)
      | (Inr ok, w1) \<Rightarrow>
          if ok then
            (case title v of
               Inl e \<Rightarrow> (Inl e, w1)
             | Inr raw \<Rightarrow>
                 (let output_path = output_file (OUTPUT_FOLDER (cfg E)) (video_id v) (sanitize_filename raw)
                  in if path_exists output_path w1 then
                       (case getmtime output_path w1 of
                          Inl e \<Rightarrow> (Inl e, w1)
                        | Inr mod_time \<Rightarrow>
                            if float_sub E (clock w1) mod_time < 5
                            then (Inr (stats\<lparr>success := success stats + 1\<rparr>), w1)
                            else (Inr (stats\<lparr>skipped := skipped stats + 1\<rparr>), w1))
                     else (Inr stats, w1)))
          else (Inr (stats\<lparr>failed := failed stats + 1\<rparr>), w1))"

fun main_loop ::
  "env \<Rightarrow> nat \<Rightarrow> nat \<Rightarrow> video list \<Rightarrow> DownloadStats \<Rightarrow> world \<Rightarrow> (exn + DownloadStats) \<times> world" where
  \<comment> \<open>\<^verbatim>\<open>for i, video in enumerate(playlist.videos, 1): ...\<close>\<close>
  "main_loop E i n [] stats w = (Inr stats, w)"
| "main_loop E i n (v # rest) stats w =
     (case main_step E i n v stats w of
        (Inl e, w1) \<Rightarrow> (Inl e, w1)
      | (Inr stats1, w1) \<Rightarrow> main_loop E (i + 1) n rest stats1 w1)"

definition print_summary :: "env \<Rightarrow> DownloadStats \<Rightarrow> world \<Rightarrow> world" where
  \<comment> \<open>the summary block, one event that carries the counters printed\<close>
  "print_summary E stats w =
     logger INFO (Summary stats (success_rate stats) (OUTPUT_FOLDER (cfg E))) w"

definition main :: "env \<Rightarrow> world \<Rightarrow> (exn + unit) \<times> world" where
  "main E w =
     (let w0 = logger INFO Rule (logger INFO ToolTitle (logger INFO Rule w))
      in case makedirs E (OUTPUT_FOLDER (cfg E)) w0 of
           (Inl e, w1) \<Rightarrow> (Inl e, w1)
         | (Inr u, w1) \<Rightarrow>
             (case initialize_api E (logger INFO (OutputDirectory (OUTPUT_FOLDER (cfg E))) w1) of
                (Inl e, w2) \<Rightarrow> (Inl e, w2)
              | (Inr None, w2) \<Rightarrow> (Inr (), w2)
              | (Inr (Some yt_api), w2) \<Rightarrow>
                  (case fetch_playlist E (PLAYLIST_URL (cfg E)) w2 of
                     (Inl e, w3) \<Rightarrow> (Inl e, w3)
                   | (Inr None, w3) \<Rightarrow> (Inr (), w3)
                   | (Inr (Some videos), w3) \<Rightarrow>
                       (let stats = \<lparr>total = int (length videos), success = 0, skipped = 0, failed = 0\<rparr>
                        in case main_loop E 1 (length videos) videos stats
                                  (logger INFO Rule (logger INFO StartingDownloads w3)) of
                             (Inl e, w4) \<Rightarrow> (Inl e, w4)
                           | (Inr stats1, w4) \<Rightarrow>
                               (Inr (), logger INFO Complete (print_summary E stats1 (logger INFO Rule w4)))))))"

section \<open>Observing a run\<close>

fun is_log :: "event \<Rightarrow> bool" where
  "is_log (Log l m) = True"
| "is_log e = False"

definition calls :: "event list \<Rightarrow> event list" where
  "calls evs = filter (\<lambda>e. \<not> is_log e) evs"

definition english :: "string list option" where
  "english = Some [''en'', ''en-US'']"

definition backoff :: "string \<Rightarrow> nat \<Rightarrow> event list" where
  "backoff vid j = [Fetch vid english, Sleep (2 ^ j)]"

fun is_fetch :: "event \<Rightarrow> bool" where
  "is_fetch (Fetch v ls) = True"
| "is_fetch e = False"


fun sleep_lengths :: "event list \<Rightarrow> real list" where
  \<comment> \<open>the lengths of all sleeps of a trace, in order\<close>
  "sleep_lengths [] = []"
| "sleep_lengths (Sleep d # evs) = d # sleep_lengths evs"
| "sleep_lengths (e # evs) = sleep_lengths evs"


fun per_item_msg :: "logmsg \<Rightarrow> bool" where
  "per_item_msg (Skipping i n t) = True"
| "per_item_msg (Processing i n t) = True"
| "per_item_msg (Retry a n d m) = True"
| "per_item_msg (NoTranscript n) = True"
| "per_item_msg Saved = True"
| "per_item_msg (VideoError i n m) = True"
| "per_item_msg m = False"

fun per_item_event :: "event \<Rightarrow> bool" where
  "per_item_event (Fetch v ls) = True"
| "per_item_event (Sleep d) = True"
| "per_item_event (OpenW p) = True"
| "per_item_event (Write p d) = True"
| "per_item_event (Log l m) = per_item_msg m"
| "per_item_event e = False"

fun is_summary :: "event \<Rightarrow> bool" where
  "is_summary (Log l (Summary s r f)) = True"
| "is_summary e = False"

definition quiet :: "world \<Rightarrow> world \<Rightarrow> bool" where
  "quiet w w' = (\<exists>evs. trace w' = trace w @ evs \<and> (\<forall>e \<in> set evs. \<not> is_summary e))"

definition tally :: "DownloadStats \<Rightarrow> int" where
  "tally s = success s + skipped s + failed s"

section \<open>Concrete worlds and environments\<close>

definition empty_world :: world where
  "empty_world = \<lparr>files = (\<lambda>p. None), clock = 0, trace = []\<rparr>"

definition default_config :: config where
  "default_config =
     \<lparr>PLAYLIST_URL = ''https://www.youtube.com/playlist?list=PLxbwE86jKRgMpuZuLBivzlM8s2Dk5lXBQ'',
      OUTPUT_FOLDER = ''transcripts'',
      RETRY_ATTEMPTS = 3,
      RATE_LIMIT_DELAY = 1 / 2,
      USE_PROXY = False,
      PROXY_USER = None,
      PROXY_PASS = None\<rparr>"

text \<open>
  The environments below subtract time stamps exactly. The runs evaluated on them only
  subtract small whole numbers and halves, whose differences are doubles, and there the
  rounded subtraction of doubles is the exact one.
\<close>

definition offline_env :: env where
  "offline_env =
     \<lparr>cfg = default_config,
      unicode_word = (\<lambda>c. False),
      service = (\<lambda>w vid langs. Inl (Exception ''transcripts are disabled'')),
      format_transcript = (\<lambda>t. Inr (concat t)),
      open_error = (\<lambda>w p. None),
      write_error = (\<lambda>w p d. None),
      makedirs_error = (\<lambda>w p. None),
      construct_error = (\<lambda>w c. None),
      playlist_videos = (\<lambda>w u. Inr []),
      meanwhile = (\<lambda>w d. files w),
      float_sub = (\<lambda>a b. a - b)\<rparr>"

definition lecture :: video where
  "lecture = \<lparr>video_id = ''dQw4w9WgXcQ'', title = Inr ''Day 1: OSI/TCP models''\<rparr>"

definition lecture_path :: string where
  "lecture_path = ''transcripts/[dQw4w9WgXcQ] - Day 1_ OSI_TCP models.txt''"

definition done_world :: world where
  "done_world =
     \<lparr>files = (\<lambda>p. if p = lecture_path then Some \<lparr>content = ''hello'', mtime = 100\<rparr> else None),
      clock = 4000,
      trace = []\<rparr>"


definition online_env :: env where
  "online_env = offline_env\<lparr>service := (\<lambda>w vid langs. Inr [''hello'', ''world''])\<rparr>"

definition full_disk_env :: env where
  "full_disk_env = online_env\<lparr>open_error := (\<lambda>w p. Some (Exception ''No space left on device''))\<rparr>"

definition racing_env :: env where
  "racing_env = online_env\<lparr>playlist_videos := (\<lambda>w u. Inr [lecture]), meanwhile := (\<lambda>w d p. None)\<rparr>"

definition bad_url_env :: env where
  "bad_url_env = online_env\<lparr>cfg := default_config\<lparr>PLAYLIST_URL := ''https://www.youtube.com/watch?v=dQw4w9WgXcQ''\<rparr>\<rparr>"

section \<open>Sanitising titles\<close>

lemma re_sub_class_map:
  "re_sub_class cls [r] s = map (\<lambda>c. if c \<in> set cls then r else c) s"
  by (induction s) simp_all

text \<open>
  Claim C4. \<open>sanitize_filename\<close> is total: in every title each occurrence of one of the
  nine characters backslash, slash, star, question mark, colon, double quote, less,
  greater, bar is replaced by an underscore, every other character is kept in place, and
  the result contains none of the nine.
\<close>

theorem sanitize_filename_total:
  "sanitize_filename t = map (\<lambda>c. if c \<in> set illegal_chars then CHR ''_'' else c) t
   \<and> length (sanitize_filename t) = length t
   \<and> set (sanitize_filename t) \<inter> set illegal_chars = {}"
proof -
  have m: "sanitize_filename t = map (\<lambda>c. if c \<in> set illegal_chars then CHR ''_'' else c) t"
    by (simp add: sanitize_filename_def re_sub_class_map)
  have u: "CHR ''_'' \<notin> set illegal_chars"
    by (simp add: illegal_chars_def)
  have "set (sanitize_filename t) \<inter> set illegal_chars = {}"
    unfolding m using u by auto
  with m show ?thesis by simp
qed

theorem sanitize_filename_total_witness:
  "sanitize_filename ''CCNA 1/2: what is a |pipe|?'' = ''CCNA 1_2_ what is a _pipe__''"
  using sanitize_filename_total [of "''CCNA 1/2: what is a |pipe|?''"]
  by (simp add: illegal_chars_def)

section \<open>Validating the playlist URL\<close>

lemma re_match_prefix:
  "re_match r s \<longleftrightarrow> (\<exists>p t. s = p @ t \<and> fullmatch r p)"
proof (induction s arbitrary: r)
  case Nil
  then show ?case by simp
next
  case (Cons c cs)
  show ?case
  proof
    assume "re_match r (c # cs)"
    then consider "nullable r" | "re_match (deriv c r) cs" by auto
    then show "\<exists>p t. c # cs = p @ t \<and> fullmatch r p"
    proof cases
      case 1
      then have "c # cs = [] @ (c # cs) \<and> fullmatch r []" by simp
      then show ?thesis by blast
    next
      case 2
      then obtain p t where "cs = p @ t" "fullmatch (deriv c r) p"
        using Cons.IH by blast
      then have "c # cs = (c # p) @ t \<and> fullmatch r (c # p)" by simp
      then show ?thesis by blast
    qed
  next
    assume "\<exists>p t. c # cs = p @ t \<and> fullmatch r p"
    then obtain p t where pt: "c # cs = p @ t" "fullmatch r p" by blast
    show "re_match r (c # cs)"
    proof (cases p)
      case Nil
      with pt have "nullable r" by simp
      then show ?thesis by simp
    next
      case pc: (Cons d p')
      with pt have "cs = p' @ t" "fullmatch (deriv c r) p'" by auto
      then have "re_match (deriv c r) cs" using Cons.IH by blast
      then show ?thesis by simp
    qed
  qed
qed

text \<open>
  Claim C10. \<open>validate_playlist_url\<close> matches a prefix of its input only: a string is
  accepted, and returned unchanged, exactly when some prefix of it is a word of the
  pattern. So a word of the pattern followed by arbitrary characters is accepted, and so
  is a \<^verbatim>\<open>youtu.be\<close> short URL, which is no playlist URL.
\<close>

theorem validate_playlist_url_prefix:
  "(validate_playlist_url uw url = Inr v
      \<longleftrightarrow> v = url \<and> (\<exists>p t. url = p @ t \<and> fullmatch (playlist_pattern uw) p))
   \<and> (fullmatch (playlist_pattern uw) q \<longrightarrow> validate_playlist_url uw (q @ r) = Inr (q @ r))
   \<and> validate_playlist_url uw ''youtu.be/dQw4w9WgXcQ'' = Inr ''youtu.be/dQw4w9WgXcQ''
   \<and> validate_playlist_url uw ''https://www.youtube.com/playlist?list=PLx-_9 <anything> after''
        = Inr ''https://www.youtube.com/playlist?list=PLx-_9 <anything> after''"
proof -
  have a: "validate_playlist_url uw url = Inr v
      \<longleftrightarrow> v = url \<and> (\<exists>p t. url = p @ t \<and> fullmatch (playlist_pattern uw) p)"
    using re_match_prefix [of "playlist_pattern uw" url]
    by (auto simp add: validate_playlist_url_def)
  have b: "fullmatch (playlist_pattern uw) q \<longrightarrow> validate_playlist_url uw (q @ r) = Inr (q @ r)"
    using re_match_prefix [of "playlist_pattern uw" "q @ r"]
    by (auto simp add: validate_playlist_url_def)
  have c: "validate_playlist_url uw ''youtu.be/dQw4w9WgXcQ'' = Inr ''youtu.be/dQw4w9WgXcQ''"
    by (simp add: validate_playlist_url_def playlist_pattern_def opt_def plus_rx_def word_char_def)
  have d: "validate_playlist_url uw ''https://www.youtube.com/playlist?list=PLx-_9 <anything> after''
        = Inr ''https://www.youtube.com/playlist?list=PLx-_9 <anything> after''"
    by (simp add: validate_playlist_url_def playlist_pattern_def opt_def plus_rx_def word_char_def)
  from a b c d show ?thesis by blast
qed

theorem validate_playlist_url_prefix_witness:
  "fullmatch (playlist_pattern (\<lambda>c. False)) ''www.youtu.be/a-b_c''
   \<and> validate_playlist_url (\<lambda>c. False) (''www.youtu.be/a-b_c'' @ ''/../ and more'')
       = Inr (''www.youtu.be/a-b_c'' @ ''/../ and more'')"
proof -
  have h: "fullmatch (playlist_pattern (\<lambda>c. False)) ''www.youtu.be/a-b_c''"
    by (simp add: playlist_pattern_def opt_def plus_rx_def word_char_def)
  from validate_playlist_url_prefix [of "\<lambda>c. False" "[]" "[]" "''www.youtu.be/a-b_c''" "''/../ and more''"] h
  show ?thesis by blast
qed

section \<open>The retry loop\<close>

lemma trace_emit [simp]: "trace (emit e w) = trace w @ [e]"
  by (simp add: emit_def)

lemma trace_logger [simp]: "trace (logger l m w) = trace w @ [Log l m]"
  by (simp add: logger_def)

lemma calls_append [simp]: "calls (xs @ ys) = calls xs @ calls ys"
  by (simp add: calls_def)

lemma calls_simps [simp]:
  "calls [] = []"
  "calls (Log l m # evs) = calls evs"
  "calls (Fetch v ls # evs) = Fetch v ls # calls evs"
  "calls (Sleep d # evs) = Sleep d # calls evs"
  by (simp_all add: calls_def)

lemma sleep_fits: "j \<le> 33 \<Longrightarrow> \<not> sleep_overflows (2 ^ j) \<and> \<not> (2::real) ^ j < 0"
proof -
  assume "j \<le> 33"
  then have "(2::real) ^ j \<le> 2 ^ 33"
    by (intro power_increasing) simp_all
  then have "(2::real) ^ j \<le> 8589934592" by simp
  moreover have "(0::real) \<le> 2 ^ j" by simp
  ultimately show ?thesis
    unfolding sleep_overflows_def by linarith
qed

lemma sleep_too_long: "sleep_overflows (2 ^ 34)"
  by (simp add: sleep_overflows_def)

lemma time_sleep_fits:
  "j \<le> 33 \<Longrightarrow> time_sleep E (2 ^ j) w
     = (Inr (), emit (Sleep (2 ^ j)) (w\<lparr>files := meanwhile E w (2 ^ j), clock := clock w + 2 ^ j\<rparr>))"
  using sleep_fits [of j] by (simp add: time_sleep_def)

lemma time_sleep_error:
  "time_sleep E d w = (Inl e, w') \<Longrightarrow> w' = w \<and> catchable e"
  by (auto simp add: time_sleep_def overflow_error_def split: if_splits)



lemma sleep_lengths_calls: "sleep_lengths (calls evs) = sleep_lengths evs"
  by (induction evs rule: sleep_lengths.induct) (simp_all add: calls_def)


lemma sleep_lengths_backoff:
  "sleep_lengths (concat (map (backoff vid) [k..<k + a]) @ Fetch vid english # fb)
     = map (\<lambda>j. 2 ^ j) [k..<k + a] @ sleep_lengths fb"
proof (induction a arbitrary: k)
  case 0
  then show ?case by (simp add: english_def)
next
  case (Suc a)
  have u: "[k..<k + Suc a] = k # [Suc k..<Suc k + a]"
    by (simp add: upt_conv_Cons)
  show ?case
    unfolding u using Suc.IH [of "Suc k"]
    by (simp add: backoff_def english_def)
qed


lemma retry_loop_all_fail:
  assumes fail: "\<And>w l. \<exists>e. service E w vid l = Inl e \<and> catchable e"
    and bound: "m \<le> 35"
  shows "k < m \<Longrightarrow>
         \<exists>w' evs. retry_loop E vid (int m) [k..<m] w = (Inr None, w') \<and> trace w' = trace w @ evs
            \<and> calls evs = concat (map (backoff vid) [k..<m - 1]) @ [Fetch vid english, Fetch vid None]"
proof (induction "m - k" arbitrary: k w)
  case 0
  then show ?case by simp
next
  case (Suc d)
  from Suc.prems have unroll: "[k..<m] = k # [Suc k..<m]"
    by (simp add: upt_conv_Cons)
  obtain e where e: "service E w vid (Some [''en'', ''en-US'']) = Inl e" "catchable e"
    using fail by blast
  let ?w1 = "emit (Fetch vid (Some [''en'', ''en-US''])) w"
  show ?case
  proof (cases "k = m - 1")
    case True
    obtain e2 where e2: "service E ?w1 vid None = Inl e2" "catchable e2"
      using fail by blast
    from True Suc.prems have last: "int k = int m - 1" by auto
    from True have emp: "[k..<m - 1] = []" by simp
    let ?w' = "logger ERROR (NoTranscript (int m)) (emit (Fetch vid None) ?w1)"
    have "retry_loop E vid (int m) [k..<m] w = (Inr None, ?w')"
      unfolding unroll using e e2 last by (simp add: api_fetch_def)
    moreover have "trace ?w' = trace w @ [Fetch vid english, Fetch vid None, Log ERROR (NoTranscript (int m))]"
      by (simp add: english_def)
    ultimately show ?thesis unfolding emp by force
  next
    case False
    with Suc.prems have lt: "Suc k < m" and notlast: "int k \<noteq> int m - 1" by auto
    from lt bound have k33: "k \<le> 33" by simp
    let ?lg = "Log WARNING (Retry (k + 1) (int m) (2 ^ k) (take 50 (str_exn e)))"
    let ?w2 = "logger WARNING (Retry (k + 1) (int m) (2 ^ k) (take 50 (str_exn e))) ?w1"
    let ?w3 = "emit (Sleep (2 ^ k)) (?w2\<lparr>files := meanwhile E ?w2 (2 ^ k), clock := clock ?w2 + 2 ^ k\<rparr>)"
    have step: "retry_loop E vid (int m) [k..<m] w = retry_loop E vid (int m) [Suc k..<m] ?w3"
      unfolding unroll using e notlast time_sleep_fits [OF k33, of E ?w2]
      by (simp add: api_fetch_def Let_def)
    from Suc.hyps lt have "d = m - Suc k" by simp
    from Suc.hyps(1) [OF this lt, of ?w3]
    obtain w' evs where w': "retry_loop E vid (int m) [Suc k..<m] ?w3 = (Inr None, w')"
      "trace w' = trace ?w3 @ evs"
      "calls evs = concat (map (backoff vid) [Suc k..<m - 1]) @ [Fetch vid english, Fetch vid None]"
      by blast
    from lt have u2: "[k..<m - 1] = k # [Suc k..<m - 1]"
      by (simp add: upt_conv_Cons)
    have "trace w' = trace w @ ([Fetch vid english, ?lg, Sleep (2 ^ k)] @ evs)"
      using w'(2) by (simp add: english_def)
    moreover have "calls ([Fetch vid english, ?lg, Sleep (2 ^ k)] @ evs)
        = concat (map (backoff vid) [k..<m - 1]) @ [Fetch vid english, Fetch vid None]"
      unfolding u2 using w'(3) by (simp add: backoff_def english_def)
    ultimately show ?thesis using step w'(1) by metis
  qed
qed

lemma retry_loop_overflow:
  assumes fail: "\<And>w l. \<exists>e. service E w vid l = Inl e \<and> catchable e"
    and many: "36 \<le> m"
  shows "k \<le> 34 \<Longrightarrow>
         \<exists>w' evs. retry_loop E vid (int m) [k..<m] w = (Inl overflow_error, w') \<and> trace w' = trace w @ evs
            \<and> calls evs = concat (map (backoff vid) [k..<34]) @ [Fetch vid english]"
proof (induction "34 - k" arbitrary: k w)
  case 0
  then have k: "k = 34" by simp
  with many have unroll: "[k..<m] = k # [Suc k..<m]" and notlast: "int k \<noteq> int m - 1"
    by (simp_all add: upt_conv_Cons)
  obtain e where e: "service E w vid (Some [''en'', ''en-US'']) = Inl e" "catchable e"
    using fail by blast
  let ?w1 = "emit (Fetch vid (Some [''en'', ''en-US''])) w"
  let ?lg = "Log WARNING (Retry (k + 1) (int m) (2 ^ k) (take 50 (str_exn e)))"
  let ?w2 = "logger WARNING (Retry (k + 1) (int m) (2 ^ k) (take 50 (str_exn e))) ?w1"
  have "time_sleep E (2 ^ k) ?w2 = (Inl overflow_error, ?w2)"
    unfolding k using sleep_too_long by (simp add: time_sleep_def)
  then have "retry_loop E vid (int m) [k..<m] w = (Inl overflow_error, ?w2)"
    unfolding unroll using e notlast by (simp add: api_fetch_def Let_def)
  moreover have "trace ?w2 = trace w @ [Fetch vid english, ?lg]"
    by (simp add: english_def)
  moreover have "calls [Fetch vid english, ?lg] = concat (map (backoff vid) [k..<34]) @ [Fetch vid english]"
    unfolding k by simp
  ultimately show ?case by metis
next
  case (Suc d)
  then have k33: "k \<le> 33" by simp
  with many have unroll: "[k..<m] = k # [Suc k..<m]" and notlast: "int k \<noteq> int m - 1"
    by (simp_all add: upt_conv_Cons)
  obtain e where e: "service E w vid (Some [''en'', ''en-US'']) = Inl e" "catchable e"
    using fail by blast
  let ?w1 = "emit (Fetch vid (Some [''en'', ''en-US''])) w"
  let ?lg = "Log WARNING (Retry (k + 1) (int m) (2 ^ k) (take 50 (str_exn e)))"
  let ?w2 = "logger WARNING (Retry (k + 1) (int m) (2 ^ k) (take 50 (str_exn e))) ?w1"
  let ?w3 = "emit (Sleep (2 ^ k)) (?w2\<lparr>files := meanwhile E ?w2 (2 ^ k), clock := clock ?w2 + 2 ^ k\<rparr>)"
  have step: "retry_loop E vid (int m) [k..<m] w = retry_loop E vid (int m) [Suc k..<m] ?w3"
    unfolding unroll using e notlast time_sleep_fits [OF k33, of E ?w2]
    by (simp add: api_fetch_def Let_def)
  from Suc.hyps k33 have "d = 34 - Suc k" "Suc k \<le> 34" by simp_all
  from Suc.hyps(1) [OF this, of ?w3]
  obtain w' evs where w': "retry_loop E vid (int m) [Suc k..<m] ?w3 = (Inl overflow_error, w')"
    "trace w' = trace ?w3 @ evs"
    "calls evs = concat (map (backoff vid) [Suc k..<34]) @ [Fetch vid english]"
    by blast
  from k33 have u2: "[k..<34] = k # [Suc k..<34]"
    by (simp add: upt_conv_Cons)
  have "trace w' = trace w @ ([Fetch vid english, ?lg, Sleep (2 ^ k)] @ evs)"
    using w'(2) by (simp add: english_def)
  moreover have "calls ([Fetch vid english, ?lg, Sleep (2 ^ k)] @ evs)
      = concat (map (backoff vid) [k..<34]) @ [Fetch vid english]"
    unfolding u2 using w'(3) by (simp add: backoff_def english_def)
  ultimately show ?case using step w'(1) by metis
qed

lemma filter_fetch_calls: "filter is_fetch (calls evs) = filter is_fetch evs"
proof (induction evs)
  case Nil
  then show ?case by simp
next
  case (Cons e evs)
  then show ?case by (cases e) (simp_all add: calls_def)
qed

lemma filter_fetch_backoff:
  "filter is_fetch (concat (map (backoff vid) [k..<k + a])) = replicate a (Fetch vid english)"
proof (induction a arbitrary: k)
  case 0
  then show ?case by simp
next
  case (Suc a)
  have u: "[k..<k + Suc a] = k # [Suc k..<Suc k + a]"
    by (simp add: upt_conv_Cons)
  show ?case unfolding u using Suc.IH [of "Suc k"] by (simp add: backoff_def)
qed

lemma all_attempts_fail_bounded:
  assumes n: "max_retries = Some n \<or> (max_retries = None \<and> RETRY_ATTEMPTS (cfg E) = n)"
    and pos: "1 \<le> n" and bound: "n \<le> 35"
    and fail: "\<forall>w l. \<exists>e. service E w vid l = Inl e \<and> catchable e"
  shows "\<exists>w' evs. fetch_transcript_with_retry E vid max_retries w = (Inr None, w')
           \<and> trace w' = trace w @ evs
           \<and> filter is_fetch evs = replicate (nat n) (Fetch vid english) @ [Fetch vid None]"
proof -
  from n have eq: "fetch_transcript_with_retry E vid max_retries w = retry_loop E vid n [0..<nat n] w"
    by (auto simp add: fetch_transcript_with_retry_def Let_def)
  from pos bound have m: "int (nat n) = n" "0 < nat n" "nat n \<le> 35" by simp_all
  from fail have f: "\<And>w l. \<exists>e. service E w vid l = Inl e \<and> catchable e" by blast
  from retry_loop_all_fail [of E vid "nat n" 0 w, OF f m(3) m(2)]
  obtain w' evs where w': "retry_loop E vid n [0..<nat n] w = (Inr None, w')" "trace w' = trace w @ evs"
     "calls evs = concat (map (backoff vid) [0..<nat n - 1]) @ [Fetch vid english, Fetch vid None]"
    unfolding m by blast
  have "filter is_fetch evs = filter is_fetch (calls evs)"
    by (simp add: filter_fetch_calls)
  also have "\<dots> = replicate (nat n - 1) (Fetch vid english) @ [Fetch vid english, Fetch vid None]"
    unfolding w'(3) using filter_fetch_backoff [of vid 0 "nat n - 1"] by simp
  also have "\<dots> = replicate (nat n) (Fetch vid english) @ [Fetch vid None]"
    using m(2) by (cases "nat n") (simp_all add: replicate_append_same)
  finally show ?thesis using eq w' by auto
qed

text \<open>
  Claim C1: for every attempt count of at least 1, if every fetch call raises an
  exception, \<open>fetch_transcript_with_retry\<close> makes the English-preferring fetch that many
  times, then the fetch with no language once, and returns \<open>None\<close> without raising. The
  code does so up to 35 attempts (\<open>all_attempts_fail_bounded\<close>). With 36 attempts and a
  service that always fails it does not: the sleep of \<open>2^34\<close> seconds after attempt 34 is
  refused by \<^verbatim>\<open>time.sleep\<close> with an \<^verbatim>\<open>OverflowError\<close>, raised in the handler
  and so outside every \<^verbatim>\<open>try\<close>; the call raises after 35 English-preferring fetches
  and 34 sleeps, and never makes the fetch with no language.
\<close>

theorem fetch_raises_at_36_attempts:
  "fst (fetch_transcript_with_retry offline_env ''dQw4w9WgXcQ'' (Some 36) empty_world) = Inl overflow_error
   \<and> filter is_fetch (trace (snd (fetch_transcript_with_retry offline_env ''dQw4w9WgXcQ'' (Some 36) empty_world)))
       = replicate 35 (Fetch ''dQw4w9WgXcQ'' english)
   \<and> sleep_lengths (trace (snd (fetch_transcript_with_retry offline_env ''dQw4w9WgXcQ'' (Some 36) empty_world)))
       = map (\<lambda>j. 2 ^ j) [0..<34]"
proof -
  let ?v = "''dQw4w9WgXcQ''"
  have f: "\<And>w l. \<exists>e. service offline_env w ?v l = Inl e \<and> catchable e"
    by (simp add: offline_env_def)
  have eq: "fetch_transcript_with_retry offline_env ?v (Some 36) empty_world
      = retry_loop offline_env ?v (int 36) [0..<36] empty_world"
    by (simp add: fetch_transcript_with_retry_def)
  from retry_loop_overflow [of offline_env ?v 36 0 empty_world, OF f]
  obtain w' evs where w': "retry_loop offline_env ?v (int 36) [0..<36] empty_world = (Inl overflow_error, w')"
    "trace w' = trace empty_world @ evs"
    "calls evs = concat (map (backoff ?v) [0..<34]) @ [Fetch ?v english]"
    by auto
  from w'(2) have t: "trace w' = evs" by (simp add: empty_world_def)
  have "filter is_fetch evs = filter is_fetch (calls evs)"
    by (simp add: filter_fetch_calls)
  also have "\<dots> = replicate 34 (Fetch ?v english) @ [Fetch ?v english]"
    unfolding w'(3) using filter_fetch_backoff [of ?v 0 34] by simp
  also have "\<dots> = replicate 35 (Fetch ?v english)"
    using replicate_Suc [of 34 "Fetch ?v english"] by (simp add: replicate_append_same)
  finally have a: "filter is_fetch evs = replicate 35 (Fetch ?v english)" .
  have "sleep_lengths evs = sleep_lengths (calls evs)"
    by (simp add: sleep_lengths_calls)
  also have "\<dots> = map (\<lambda>j. 2 ^ j) [0..<34]"
    unfolding w'(3) using sleep_lengths_backoff [of ?v 0 34 "[]"] by simp
  finally have b: "sleep_lengths evs = map (\<lambda>j. 2 ^ j) [0..<34]" .
  from a b t show ?thesis unfolding eq w'(1) by simp
qed

text \<open>
  Claim C9. When the attempt count in force is zero or negative,
  \<open>fetch_transcript_with_retry\<close> returns \<open>None\<close> at once and leaves the world as it was:
  no fetch is made, the fetch with no language included.
\<close>

theorem fetch_no_attempt_when_nonpositive:
  assumes "max_retries = Some n \<or> (max_retries = None \<and> RETRY_ATTEMPTS (cfg E) = n)"
    and "n \<le> 0"
  shows "fetch_transcript_with_retry E vid max_retries w = (Inr None, w)"
  using assms by (auto simp add: fetch_transcript_with_retry_def Let_def)

theorem fetch_no_attempt_when_nonpositive_witness:
  "fetch_transcript_with_retry (offline_env\<lparr>cfg := default_config\<lparr>RETRY_ATTEMPTS := 0\<rparr>\<rparr>) ''dQw4w9WgXcQ'' None empty_world
     = (Inr None, empty_world)
   \<and> trace empty_world = []"
proof -
  let ?E = "offline_env\<lparr>cfg := default_config\<lparr>RETRY_ATTEMPTS := 0\<rparr>\<rparr>"
  have n: "None = Some (0::int) \<or> ((None::int option) = None \<and> RETRY_ATTEMPTS (cfg ?E) = 0)"
    by simp
  have p: "(0::int) \<le> 0" by simp
  from fetch_no_attempt_when_nonpositive [OF n p, of "''dQw4w9WgXcQ''" empty_world]
  show ?thesis by (simp add: empty_world_def)
qed




section \<open>Processing one video\<close>

lemma lecture_path_eq:
  "output_file ''transcripts'' (video_id lecture) (sanitize_filename ''Day 1: OSI/TCP models'') = lecture_path"
  by (simp add: output_file_def path_join_def lecture_def sanitize_filename_def illegal_chars_def lecture_path_def)



text \<open>
  Claim C3. When the output file of a video, \<^verbatim>\<open>[{video_id}] - {sanitized_title}.txt\<close>
  under the output folder, already exists, \<open>process_video\<close> returns \<open>True\<close>; the one thing
  it does is log that it skips the video: no fetch, no open, no write, and the files (and
  so the content of that file) are as before.
\<close>

theorem process_video_skips_existing:
  assumes "title v = Inr raw"
    and "files w (output_file output_folder (video_id v) (sanitize_filename raw)) = Some f"
  shows "\<exists>w'. process_video E v index n output_folder w = (Inr True, w')
           \<and> files w' = files w \<and> clock w' = clock w
           \<and> trace w' = trace w @ [Log INFO (Skipping index n (take 50 (sanitize_filename raw)))]"
  using assms
  by (simp add: process_video_def process_video_body_def path_exists_def Let_def logger_def emit_def)

theorem process_video_skips_existing_witness:
  "\<exists>w'. process_video online_env lecture 1 3 ''transcripts'' done_world = (Inr True, w')
           \<and> files w' = files done_world
           \<and> trace w' = [Log INFO (Skipping 1 3 ''Day 1_ OSI_TCP models'')]"
proof -
  have t: "title lecture = Inr ''Day 1: OSI/TCP models''"
    by (simp add: lecture_def)
  have f: "files done_world (output_file ''transcripts'' (video_id lecture) (sanitize_filename ''Day 1: OSI/TCP models''))
             = Some \<lparr>content = ''hello'', mtime = 100\<rparr>"
    unfolding lecture_path_eq by (simp add: done_world_def)
  from process_video_skips_existing [OF t f, of online_env 1 3]
  show ?thesis by (auto simp add: done_world_def sanitize_filename_def illegal_chars_def)
qed




lemma process_video_no_exception:
  "process_video E v i n folder w = (Inl e, w') \<Longrightarrow> \<not> catchable e"
  by (auto simp add: process_video_def split: prod.splits sum.splits if_splits)

lemma retry_loop_all_fail_caught:
  assumes fail: "\<And>w l. \<exists>e. service E w vid l = Inl e \<and> catchable e"
  shows "fst (retry_loop E vid n xs w) = Inr None
       \<or> (\<exists>e. fst (retry_loop E vid n xs w) = Inl e \<and> catchable e)"
proof (induction xs arbitrary: w)
  case Nil
  then show ?case by simp
next
  case (Cons a xs)
  obtain e where e: "service E w vid (Some [''en'', ''en-US'']) = Inl e" "catchable e"
    using fail by blast
  let ?w1 = "emit (Fetch vid (Some [''en'', ''en-US''])) w"
  show ?case
  proof (cases "int a = n - 1")
    case True
    obtain e2 where e2: "service E ?w1 vid None = Inl e2" "catchable e2"
      using fail by blast
    with e True show ?thesis by (simp add: api_fetch_def)
  next
    case False
    let ?w2 = "logger WARNING (Retry (a + 1) n (2 ^ a) (take 50 (str_exn e))) ?w1"
    obtain rs w3 where sl: "time_sleep E (2 ^ a) ?w2 = (rs, w3)"
      by (cases "time_sleep E (2 ^ a) ?w2")
    show ?thesis
    proof (cases rs)
      case (Inl e3)
      with sl time_sleep_error have "catchable e3" by blast
      with Inl sl e False show ?thesis by (simp add: api_fetch_def Let_def)
    next
      case (Inr u)
      with sl e False have "retry_loop E vid n (a # xs) w = retry_loop E vid n xs w3"
        by (simp add: api_fetch_def Let_def)
      with Cons.IH [of w3] show ?thesis by simp
    qed
  qed
qed

lemma process_video_false_when_all_fail:
  assumes t: "title v = Inr raw"
    and nf: "files w (output_file folder (video_id v) (sanitize_filename raw)) = None"
    and fail: "\<forall>w' l. \<exists>x. service E w' (video_id v) l = Inl x \<and> catchable x"
  shows "fst (process_video E v i n folder w) = Inr False"
proof -
  let ?w = "logger INFO (Processing i n (take 50 (sanitize_filename raw))) w"
  from fail have f: "\<And>w' l. \<exists>x. service E w' (video_id v) l = Inl x \<and> catchable x" by blast
  obtain r w2 where run: "fetch_transcript_with_retry E (video_id v) None ?w = (r, w2)"
    by (cases "fetch_transcript_with_retry E (video_id v) None ?w")
  from retry_loop_all_fail_caught [of E "video_id v" "RETRY_ATTEMPTS (cfg E)" "[0..<nat (RETRY_ATTEMPTS (cfg E))]" ?w, OF f] run
  have "r = Inr None \<or> (\<exists>e. r = Inl e \<and> catchable e)"
    by (simp add: fetch_transcript_with_retry_def Let_def)
  then show ?thesis
  proof
    assume "r = Inr None"
    with run t nf show ?thesis
      by (simp add: process_video_def process_video_body_def path_exists_def Let_def)
  next
    assume "\<exists>e. r = Inl e \<and> catchable e"
    then obtain e where "r = Inl e" "catchable e" by blast
    with run t nf show ?thesis
      by (simp add: process_video_def process_video_body_def path_exists_def Let_def)
  qed
qed

text \<open>
  Claim C6. An exception (an instance of \<^verbatim>\<open>Exception\<close>) that a step of the \<^verbatim>\<open>try\<close>
  block of \<open>process_video\<close> raises, be it reading the title for the file name, the fetch
  with its retries, formatting, opening or writing the file, or the pause after it, is
  caught by the handler: \<open>process_video\<close> logs it cut to 80 characters and returns
  \<open>False\<close>, the loop of \<open>main\<close> counts the video as failed and goes on with the next one.
  No such exception leaves \<open>process_video\<close>. Exceptions of the fetch calls themselves are
  caught inside the retry loop; when all of them fail the result is \<open>False\<close> as well.
\<close>

theorem process_video_catches:
  "(process_video_body E v i n (OUTPUT_FOLDER (cfg E)) w = (Inl e, w1) \<and> catchable e \<longrightarrow>
        process_video E v i n (OUTPUT_FOLDER (cfg E)) w
           = (Inr False, logger ERROR (VideoError i n (take 80 (str_exn e))) w1)
      \<and> main_step E i n v stats w
           = (Inr (stats\<lparr>failed := failed stats + 1\<rparr>), logger ERROR (VideoError i n (take 80 (str_exn e))) w1)
      \<and> main_loop E i n (v # rest) stats w
           = main_loop E (i + 1) n rest (stats\<lparr>failed := failed stats + 1\<rparr>)
               (logger ERROR (VideoError i n (take 80 (str_exn e))) w1))
   \<and> (process_video E v i n folder w = (Inl e, w1) \<longrightarrow> \<not> catchable e)
   \<and> (title v = Inr raw
        \<and> files w (output_file folder (video_id v) (sanitize_filename raw)) = None
        \<and> (\<forall>w' l. \<exists>x. service E w' (video_id v) l = Inl x \<and> catchable x)
        \<longrightarrow> fst (process_video E v i n folder w) = Inr False)"
proof -
  have a: "process_video E v i n (OUTPUT_FOLDER (cfg E)) w
           = (Inr False, logger ERROR (VideoError i n (take 80 (str_exn e))) w1)"
    if "process_video_body E v i n (OUTPUT_FOLDER (cfg E)) w = (Inl e, w1)" "catchable e"
    using that by (simp add: process_video_def)
  have b: "main_step E i n v stats w
           = (Inr (stats\<lparr>failed := failed stats + 1\<rparr>), logger ERROR (VideoError i n (take 80 (str_exn e))) w1)"
    if "process_video_body E v i n (OUTPUT_FOLDER (cfg E)) w = (Inl e, w1)" "catchable e"
    using a [OF that] by (simp add: main_step_def)
  have c: "main_loop E i n (v # rest) stats w
           = main_loop E (i + 1) n rest (stats\<lparr>failed := failed stats + 1\<rparr>)
               (logger ERROR (VideoError i n (take 80 (str_exn e))) w1)"
    if "process_video_body E v i n (OUTPUT_FOLDER (cfg E)) w = (Inl e, w1)" "catchable e"
    using b [OF that] by simp
  have d: "process_video E v i n folder w = (Inl e, w1) \<longrightarrow> \<not> catchable e"
    using process_video_no_exception by blast
  have e: "fst (process_video E v i n folder w) = Inr False"
    if t: "title v = Inr raw"
      and nf: "files w (output_file folder (video_id v) (sanitize_filename raw)) = None"
      and fail: "\<forall>w' l. \<exists>x. service E w' (video_id v) l = Inl x \<and> catchable x"
    using process_video_false_when_all_fail [OF that] .
  from a b c d e show ?thesis by blast
qed

theorem process_video_catches_witness:
  "process_video full_disk_env lecture 1 1 ''transcripts'' empty_world
     = (Inr False,
        logger ERROR (VideoError 1 1 ''No space left on device'')
          (emit (Fetch ''dQw4w9WgXcQ'' english) (logger INFO (Processing 1 1 ''Day 1_ OSI_TCP models'') empty_world)))
   \<and> fst (main_step full_disk_env 1 1 lecture \<lparr>total = 1, success = 0, skipped = 0, failed = 0\<rparr> empty_world)
       = Inr \<lparr>total = 1, success = 0, skipped = 0, failed = 1\<rparr>
   \<and> fst (process_video offline_env lecture 1 1 ''transcripts'' empty_world) = Inr False"
proof -
  have folder: "OUTPUT_FOLDER (cfg full_disk_env) = ''transcripts''"
    by (simp add: full_disk_env_def online_env_def offline_env_def default_config_def)
  have body: "process_video_body full_disk_env lecture 1 1 (OUTPUT_FOLDER (cfg full_disk_env)) empty_world
     = (Inl (Exception ''No space left on device''),
        emit (Fetch ''dQw4w9WgXcQ'' english) (logger INFO (Processing 1 1 ''Day 1_ OSI_TCP models'') empty_world))"
    unfolding folder
    by (simp add: process_video_body_def lecture_def lecture_path_eq [unfolded lecture_def, simplified]
          path_exists_def empty_world_def fetch_transcript_with_retry_def full_disk_env_def online_env_def
          offline_env_def default_config_def upt_rec api_fetch_def open_w_def english_def Let_def
          sanitize_filename_def illegal_chars_def)
  have c: "catchable (Exception ''No space left on device'')" by simp
  have t: "title lecture = Inr ''Day 1: OSI/TCP models''" by (simp add: lecture_def)
  have nf: "files empty_world (output_file ''transcripts'' (video_id lecture) (sanitize_filename ''Day 1: OSI/TCP models'')) = None"
    by (simp add: empty_world_def)
  have fail: "\<forall>w l. \<exists>x. service offline_env w (video_id lecture) l = Inl x \<and> catchable x"
    by (simp add: offline_env_def)
  from process_video_catches [of full_disk_env lecture 1 1 empty_world "Exception ''No space left on device''"
        "emit (Fetch ''dQw4w9WgXcQ'' english) (logger INFO (Processing 1 1 ''Day 1_ OSI_TCP models'') empty_world)"
        "\<lparr>total = 1, success = 0, skipped = 0, failed = 0\<rparr>" "[]"] body c
  have p: "process_video full_disk_env lecture 1 1 ''transcripts'' empty_world
     = (Inr False,
        logger ERROR (VideoError 1 1 ''No space left on device'')
          (emit (Fetch ''dQw4w9WgXcQ'' english) (logger INFO (Processing 1 1 ''Day 1_ OSI_TCP models'') empty_world)))"
    and q: "fst (main_step full_disk_env 1 1 lecture \<lparr>total = 1, success = 0, skipped = 0, failed = 0\<rparr> empty_world)
       = Inr \<lparr>total = 1, success = 0, skipped = 0, failed = 1\<rparr>"
    unfolding folder by simp_all
  from process_video_catches [of offline_env lecture 1 1 empty_world _ _ _ _ "''transcripts''" "''Day 1: OSI/TCP models''"]
    t nf fail
  have r: "fst (process_video offline_env lecture 1 1 ''transcripts'' empty_world) = Inr False"
    by blast
  from p q r show ?thesis by blast
qed

section \<open>The whole run\<close>

lemma quiet_refl [simp]: "quiet w w"
  by (simp add: quiet_def)

lemma quiet_trans: "quiet w w1 \<Longrightarrow> quiet w1 w2 \<Longrightarrow> quiet w w2"
  unfolding quiet_def by (metis append.assoc set_append Un_iff)

lemma quiet_emit: "\<not> is_summary e \<Longrightarrow> quiet w w1 \<Longrightarrow> quiet w (emit e w1)"
  unfolding quiet_def by (auto simp add: emit_def)

lemma quiet_logger: "\<not> is_summary (Log l m) \<Longrightarrow> quiet w w1 \<Longrightarrow> quiet w (logger l m w1)"
  unfolding logger_def by (rule quiet_emit)

lemma quiet_api_fetch: "api_fetch E vid langs w1 = (r, w2) \<Longrightarrow> quiet w w1 \<Longrightarrow> quiet w w2"
  by (auto simp add: api_fetch_def intro: quiet_emit)

lemma quiet_time_sleep: "time_sleep E d w1 = (r, w2) \<Longrightarrow> quiet w w1 \<Longrightarrow> quiet w w2"
  by (auto simp add: time_sleep_def quiet_def emit_def split: if_splits)

lemma quiet_open_w: "open_w E p w1 = (r, w2) \<Longrightarrow> quiet w w1 \<Longrightarrow> quiet w w2"
  by (auto simp add: open_w_def quiet_def emit_def split: option.splits)

lemma quiet_file_write: "file_write E p d w1 = (r, w2) \<Longrightarrow> quiet w w1 \<Longrightarrow> quiet w w2"
  by (auto simp add: file_write_def quiet_def emit_def split: option.splits)

lemma quiet_retry_loop:
  "retry_loop E vid n xs w1 = (r, w2) \<Longrightarrow> quiet w w1 \<Longrightarrow> quiet w w2"
proof (induction xs arbitrary: w1)
  case Nil
  then show ?case by simp
next
  case (Cons a xs)
  obtain r1 wa where f1: "api_fetch E vid (Some [''en'', ''en-US'']) w1 = (r1, wa)"
    by (cases "api_fetch E vid (Some [''en'', ''en-US'']) w1")
  from quiet_api_fetch [OF f1 Cons.prems(2)] have qa: "quiet w wa" .
  show ?case
  proof (cases r1)
    case (Inr t)
    with Cons.prems(1) f1 qa show ?thesis by simp
  next
    case (Inl e)
    show ?thesis
    proof (cases "catchable e")
      case False
      with Inl Cons.prems(1) f1 qa show ?thesis by simp
    next
      case True
      show ?thesis
      proof (cases "int a = n - 1")
        case last: True
        obtain r2 wb where f2: "api_fetch E vid None wa = (r2, wb)"
          by (cases "api_fetch E vid None wa")
        from quiet_api_fetch [OF f2 qa] have qb: "quiet w wb" .
        then have "quiet w (logger ERROR (NoTranscript n) wb)"
          by (simp add: quiet_logger)
        with Inl True last Cons.prems(1) f1 f2 qb show ?thesis
          by (auto split: sum.splits if_splits)
      next
        case notlast: False
        let ?w2 = "logger WARNING (Retry (a + 1) n (2 ^ a) (take 50 (str_exn e))) wa"
        have q2: "quiet w ?w2" using qa by (simp add: quiet_logger)
        obtain r3 w3 where sl: "time_sleep E (2 ^ a) ?w2 = (r3, w3)"
          by (cases "time_sleep E (2 ^ a) ?w2")
        from quiet_time_sleep [OF sl q2] have q3: "quiet w w3" .
        show ?thesis
        proof (cases r3)
          case (Inl e3)
          with \<open>r1 = Inl e\<close> True notlast Cons.prems(1) f1 sl q3 show ?thesis
            by (simp add: Let_def)
        next
          case (Inr u)
          with \<open>r1 = Inl e\<close> True notlast Cons.prems(1) f1 sl
          have "retry_loop E vid n xs w3 = (r, w2)" by (simp add: Let_def)
          from Cons.IH [OF this q3] show ?thesis .
        qed
      qed
    qed
  qed
qed

lemma quiet_process_video_body:
  assumes "process_video_body E v i n folder w = (r, w2)"
  shows "quiet w w2"
proof (cases "title v")
  case (Inl e)
  with assms show ?thesis by (simp add: process_video_body_def)
next
  case (Inr raw)
  let ?p = "output_file folder (video_id v) (sanitize_filename raw)"
  show ?thesis
  proof (cases "path_exists ?p w")
    case True
    with Inr assms show ?thesis
      by (auto simp add: process_video_body_def Let_def intro: quiet_logger)
  next
    case False
    let ?w1 = "logger INFO (Processing i n (take 50 (sanitize_filename raw))) w"
    have q1: "quiet w ?w1" by (simp add: quiet_logger)
    obtain rf wf where f: "fetch_transcript_with_retry E (video_id v) None ?w1 = (rf, wf)"
      by (cases "fetch_transcript_with_retry E (video_id v) None ?w1")
    then have qf: "quiet w wf"
      using quiet_retry_loop [OF _ q1] by (simp add: fetch_transcript_with_retry_def Let_def)
    show ?thesis
    proof (cases rf)
      case (Inl e)
      with Inr False assms f qf show ?thesis
        by (simp add: process_video_body_def Let_def)
    next
      case rfr: (Inr topt)
      show ?thesis
      proof (cases topt)
        case None
        with rfr Inr False assms f qf show ?thesis
          by (simp add: process_video_body_def Let_def)
      next
        case (Some td)
        show ?thesis
        proof (cases "format_transcript E td")
          case (Inl e)
          with Some rfr Inr False assms f qf show ?thesis
            by (simp add: process_video_body_def Let_def)
        next
          case fr: (Inr ftext)
          obtain ro wo where o: "open_w E ?p wf = (ro, wo)" by (cases "open_w E ?p wf")
          from quiet_open_w [OF o qf] have qo: "quiet w wo" .
          obtain rw ww where wr: "file_write E ?p ftext wo = (rw, ww)" by (cases "file_write E ?p ftext wo")
          from quiet_file_write [OF wr qo] have qw: "quiet w ww" .
          then have qs: "quiet w (logger INFO Saved ww)" by (simp add: quiet_logger)
          obtain rs ws where sl: "time_sleep E (RATE_LIMIT_DELAY (cfg E)) (logger INFO Saved ww) = (rs, ws)"
            by (cases "time_sleep E (RATE_LIMIT_DELAY (cfg E)) (logger INFO Saved ww)")
          from quiet_time_sleep [OF sl qs] have qq: "quiet w ws" .
          from fr Some rfr Inr False assms f o wr sl qo qw qq show ?thesis
            by (auto simp add: process_video_body_def Let_def split: sum.splits)
        qed
      qed
    qed
  qed
qed

lemma quiet_process_video:
  assumes "process_video E v i n folder w = (r, w2)"
  shows "quiet w w2"
proof -
  obtain rb wb where b: "process_video_body E v i n folder w = (rb, wb)"
    by (cases "process_video_body E v i n folder w")
  from quiet_process_video_body [OF b] have q: "quiet w wb" .
  then have "quiet w (logger ERROR (VideoError i n m) wb)" for m
    by (simp add: quiet_logger)
  with assms b q show ?thesis
    by (auto simp add: process_video_def split: sum.splits if_splits)
qed

lemma main_step_counts:
  assumes "main_step E i n v s w = (Inr s1, w1)"
  shows "quiet w w1 \<and> total s1 = total s \<and> tally s \<le> tally s1 \<and> tally s1 \<le> tally s + 1"
proof -
  obtain rp wp where p: "process_video E v i n (OUTPUT_FOLDER (cfg E)) w = (rp, wp)"
    by (cases "process_video E v i n (OUTPUT_FOLDER (cfg E)) w")
  from quiet_process_video [OF p] have q: "quiet w wp" .
  from assms p have "w1 = wp"
    by (auto simp add: main_step_def Let_def split: sum.splits if_splits)
  moreover from assms p have "total s1 = total s \<and> tally s \<le> tally s1 \<and> tally s1 \<le> tally s + 1"
    by (auto simp add: main_step_def Let_def tally_def split: sum.splits if_splits)
  ultimately show ?thesis using q by simp
qed

lemma main_loop_counts:
  "main_loop E i n vs s w = (Inr s1, w1) \<Longrightarrow>
     quiet w w1 \<and> total s1 = total s \<and> tally s \<le> tally s1 \<and> tally s1 \<le> tally s + int (length vs)"
proof (induction vs arbitrary: i s w)
  case Nil
  then show ?case by simp
next
  case (Cons v vs)
  obtain rs ws where st: "main_step E i n v s w = (rs, ws)"
    by (cases "main_step E i n v s w")
  with Cons.prems obtain s2 where rs: "rs = Inr s2" and rest: "main_loop E (i + 1) n vs s2 ws = (Inr s1, w1)"
    by (cases rs) auto
  from main_step_counts [OF st [unfolded rs]] Cons.IH [OF rest]
  show ?case by (auto intro: quiet_trans)
qed


lemma quiet_main_step:
  assumes "main_step E i n v s w = (r, w1)"
  shows "quiet w w1"
proof -
  obtain rp wp where p: "process_video E v i n (OUTPUT_FOLDER (cfg E)) w = (rp, wp)"
    by (cases "process_video E v i n (OUTPUT_FOLDER (cfg E)) w")
  from quiet_process_video [OF p] have q: "quiet w wp" .
  from assms p have "w1 = wp"
    by (auto simp add: main_step_def Let_def split: sum.splits if_splits)
  with q show ?thesis by simp
qed

lemma quiet_main_loop:
  "main_loop E i n vs s w = (r, w1) \<Longrightarrow> quiet w w1"
proof (induction vs arbitrary: i s w)
  case Nil
  then show ?case by simp
next
  case (Cons v vs)
  obtain rs ws where st: "main_step E i n v s w = (rs, ws)"
    by (cases "main_step E i n v s w")
  from quiet_main_step [OF st] have q: "quiet w ws" .
  show ?case
  proof (cases rs)
    case (Inl e)
    with Cons.prems st q show ?thesis by simp
  next
    case (Inr s2)
    with Cons.prems st have "main_loop E (i + 1) n vs s2 ws = (r, w1)" by simp
    from Cons.IH [OF this] q show ?thesis by (blast intro: quiet_trans)
  qed
qed

lemma quiet_makedirs: "makedirs E p w1 = (r, w2) \<Longrightarrow> quiet w w1 \<Longrightarrow> quiet w w2"
  by (auto simp add: makedirs_def split: option.splits intro: quiet_emit)

lemma quiet_initialize_api: "initialize_api E w1 = (r, w2) \<Longrightarrow> quiet w w1 \<Longrightarrow> quiet w w2"
  by (auto simp add: initialize_api_def Let_def split: option.splits if_splits
        intro!: quiet_emit quiet_logger)

lemma quiet_fetch_playlist: "fetch_playlist E url w1 = (r, w2) \<Longrightarrow> quiet w w1 \<Longrightarrow> quiet w w2"
  by (auto simp add: fetch_playlist_def Let_def split: option.splits sum.splits if_splits
        intro!: quiet_emit quiet_logger)

lemma fetch_playlist_videos:
  "fetch_playlist E url w1 = (Inr (Some vs), w2) \<Longrightarrow> \<exists>wv. playlist_videos E wv url = Inr vs"
  by (auto simp add: fetch_playlist_def validate_playlist_url_def Let_def split: sum.splits if_splits)

lemma main_cases:
  assumes "main E w = (r, w')"
  shows "quiet w w' \<or>
         (\<exists>vs wv wl s1 w4. playlist_videos E wv (PLAYLIST_URL (cfg E)) = Inr vs
            \<and> main_loop E 1 (length vs) vs \<lparr>total = int (length vs), success = 0, skipped = 0, failed = 0\<rparr> wl
                 = (Inr s1, w4)
            \<and> quiet w w4
            \<and> trace w' = trace w4 @ [Log INFO Rule,
                                      Log INFO (Summary s1 (success_rate s1) (OUTPUT_FOLDER (cfg E))),
                                      Log INFO Complete])"
proof -
  let ?w0 = "logger INFO Rule (logger INFO ToolTitle (logger INFO Rule w))"
  have q0: "quiet w ?w0" by (simp add: quiet_logger)
  obtain rm wm where mk: "makedirs E (OUTPUT_FOLDER (cfg E)) ?w0 = (rm, wm)"
    by (cases "makedirs E (OUTPUT_FOLDER (cfg E)) ?w0")
  from quiet_makedirs [OF mk q0] have qm: "quiet w wm" .
  show ?thesis
  proof (cases rm)
    case (Inl e)
    with assms mk qm show ?thesis by (simp add: main_def)
  next
    case rmr: (Inr u)
    let ?w1 = "logger INFO (OutputDirectory (OUTPUT_FOLDER (cfg E))) wm"
    have q1: "quiet w ?w1" using qm by (simp add: quiet_logger)
    obtain ri wi where ini: "initialize_api E ?w1 = (ri, wi)"
      by (cases "initialize_api E ?w1")
    from quiet_initialize_api [OF ini q1] have qi: "quiet w wi" .
    show ?thesis
    proof (cases ri)
      case (Inl e)
      with rmr assms mk ini qi show ?thesis by (simp add: main_def)
    next
      case rir: (Inr api)
      show ?thesis
      proof (cases api)
        case None
        with rir rmr assms mk ini qi show ?thesis by (simp add: main_def)
      next
        case (Some yt)
        obtain rp wp where fp: "fetch_playlist E (PLAYLIST_URL (cfg E)) wi = (rp, wp)"
          by (cases "fetch_playlist E (PLAYLIST_URL (cfg E)) wi")
        from quiet_fetch_playlist [OF fp qi] have qp: "quiet w wp" .
        show ?thesis
        proof (cases rp)
          case (Inl e)
          with Some rir rmr assms mk ini fp qp show ?thesis by (simp add: main_def)
        next
          case rpr: (Inr pl)
          show ?thesis
          proof (cases pl)
            case None
            with rpr Some rir rmr assms mk ini fp qp show ?thesis by (simp add: main_def)
          next
            case pls: (Some vs)
            from fp rpr pls fetch_playlist_videos obtain wv
              where wv: "playlist_videos E wv (PLAYLIST_URL (cfg E)) = Inr vs" by blast
            let ?wl = "logger INFO Rule (logger INFO StartingDownloads wp)"
            let ?s0 = "\<lparr>total = int (length vs), success = 0, skipped = 0, failed = 0\<rparr>"
            have ql: "quiet w ?wl" using qp by (simp add: quiet_logger)
            obtain rl w4 where lp: "main_loop E 1 (length vs) vs ?s0 ?wl = (rl, w4)"
              by (cases "main_loop E 1 (length vs) vs ?s0 ?wl")
            show ?thesis
            proof (cases rl)
              case (Inl e)
              from quiet_main_loop [OF lp] ql have "quiet w w4" by (blast intro: quiet_trans)
              with Inl pls rpr Some rir rmr assms mk ini fp lp show ?thesis
                by (simp add: main_def Let_def)
            next
              case (Inr s1)
              with lp main_loop_counts have "quiet ?wl w4" by blast
              with ql have q4: "quiet w w4" by (rule quiet_trans)
              from Inr pls rpr Some rir rmr assms mk ini fp lp
              have "trace w' = trace w4 @ [Log INFO Rule,
                                      Log INFO (Summary s1 (success_rate s1) (OUTPUT_FOLDER (cfg E))),
                                      Log INFO Complete]"
                by (auto simp add: main_def print_summary_def Let_def)
              with wv lp Inr q4 show ?thesis by blast
            qed
          qed
        qed
      qed
    qed
  qed
qed


lemma racing_run:
  "fst (main racing_env empty_world) = Inr ()
   \<and> filter is_summary (trace (snd (main racing_env empty_world)))
       = [Log INFO (Summary \<lparr>total = 1, success = 0, skipped = 0, failed = 0\<rparr> (Some 0) ''transcripts'')]"
  by (simp add: main_def racing_env_def online_env_def offline_env_def default_config_def empty_world_def
        makedirs_def initialize_api_def fetch_playlist_def validate_playlist_url_def playlist_pattern_def
        opt_def plus_rx_def word_char_def main_step_def process_video_def process_video_body_def
        lecture_def output_file_def path_join_def sanitize_filename_def illegal_chars_def path_exists_def
        fetch_transcript_with_retry_def upt_rec api_fetch_def open_w_def file_write_def time_sleep_def
        sleep_overflows_def
        print_summary_def success_rate_def logger_def emit_def Let_def)

text \<open>
  Claim C8. Whenever a run of \<open>main\<close> prints the summary, the counters printed satisfy
  \<open>success + skipped + failed \<le> total\<close>, where \<open>total\<close> is the length of the playlist as
  resolved at the start. Equality can fail: an iteration in which \<open>process_video\<close>
  returned \<open>True\<close> but the output file is absent at classification leaves all three
  counters as they were. In the run of \<open>racing_env\<close> the one video is fetched and written,
  another process removes the file during the pause after the write, and the summary
  reads total 1, success 0, skipped 0, failed 0.
\<close>

theorem counters_bounded_by_total:
  "(main E w = (r, w') \<and> trace w' = trace w @ evs \<and> Log lvl (Summary s rate folder) \<in> set evs
      \<longrightarrow> success s + skipped s + failed s \<le> total s
        \<and> (\<exists>vs wv. playlist_videos E wv (PLAYLIST_URL (cfg E)) = Inr vs \<and> total s = int (length vs)))
   \<and> (process_video E v i n (OUTPUT_FOLDER (cfg E)) w = (Inr True, w1) \<and> title v = Inr raw
        \<and> files w1 (output_file (OUTPUT_FOLDER (cfg E)) (video_id v) (sanitize_filename raw)) = None
      \<longrightarrow> main_step E i n v stats w = (Inr stats, w1))
   \<and> (fst (main racing_env empty_world) = Inr ()
        \<and> filter is_summary (trace (snd (main racing_env empty_world)))
            = [Log INFO (Summary \<lparr>total = 1, success = 0, skipped = 0, failed = 0\<rparr> (Some 0) ''transcripts'')])"
proof -
  have a: "success s + skipped s + failed s \<le> total s
        \<and> (\<exists>vs wv. playlist_videos E wv (PLAYLIST_URL (cfg E)) = Inr vs \<and> total s = int (length vs))"
    if run: "main E w = (r, w')" and tr: "trace w' = trace w @ evs"
      and mem: "Log lvl (Summary s rate folder) \<in> set evs"
  proof -
    from main_cases [OF run] show ?thesis
    proof
      assume "quiet w w'"
      then obtain evs' where "trace w' = trace w @ evs'" "\<forall>e \<in> set evs'. \<not> is_summary e"
        unfolding quiet_def by blast
      with tr have "\<forall>e \<in> set evs. \<not> is_summary e" by simp
      with mem show ?thesis by force
    next
      assume "\<exists>vs wv wl s1 w4. playlist_videos E wv (PLAYLIST_URL (cfg E)) = Inr vs
            \<and> main_loop E 1 (length vs) vs \<lparr>total = int (length vs), success = 0, skipped = 0, failed = 0\<rparr> wl
                 = (Inr s1, w4)
            \<and> quiet w w4
            \<and> trace w' = trace w4 @ [Log INFO Rule,
                                      Log INFO (Summary s1 (success_rate s1) (OUTPUT_FOLDER (cfg E))),
                                      Log INFO Complete]"
      then obtain vs wv wl s1 w4 where pv: "playlist_videos E wv (PLAYLIST_URL (cfg E)) = Inr vs"
        and lp: "main_loop E 1 (length vs) vs \<lparr>total = int (length vs), success = 0, skipped = 0, failed = 0\<rparr> wl
                 = (Inr s1, w4)"
        and q: "quiet w w4"
        and t4: "trace w' = trace w4 @ [Log INFO Rule,
                                      Log INFO (Summary s1 (success_rate s1) (OUTPUT_FOLDER (cfg E))),
                                      Log INFO Complete]"
        by blast
      from q obtain pre where pre: "trace w4 = trace w @ pre" "\<forall>e \<in> set pre. \<not> is_summary e"
        unfolding quiet_def by blast
      from tr t4 pre(1) have "evs = pre @ [Log INFO Rule,
                                      Log INFO (Summary s1 (success_rate s1) (OUTPUT_FOLDER (cfg E))),
                                      Log INFO Complete]"
        by simp
      with mem pre(2) have "s = s1" by force
      moreover from main_loop_counts [OF lp]
      have "total s1 = int (length vs)" "tally s1 \<le> int (length vs)"
        by (simp_all add: tally_def)
      ultimately show ?thesis using pv by (auto simp add: tally_def)
    qed
  qed
  have b: "main_step E i n v stats w = (Inr stats, w1)"
    if "process_video E v i n (OUTPUT_FOLDER (cfg E)) w = (Inr True, w1)" "title v = Inr raw"
       "files w1 (output_file (OUTPUT_FOLDER (cfg E)) (video_id v) (sanitize_filename raw)) = None"
    using that by (simp add: main_step_def path_exists_def Let_def)
  from a b racing_run show ?thesis by blast
qed

theorem counters_bounded_by_total_witness:
  "main racing_env empty_world = (Inr (), snd (main racing_env empty_world))
   \<and> Log INFO (Summary \<lparr>total = 1, success = 0, skipped = 0, failed = 0\<rparr> (Some 0) ''transcripts'')
        \<in> set (trace (snd (main racing_env empty_world)))
   \<and> success \<lparr>total = 1, success = 0, skipped = 0, failed = 0\<rparr>
       + skipped \<lparr>total = 1, success = 0, skipped = 0, failed = 0\<rparr>
       + failed \<lparr>total = 1, success = 0, skipped = 0, failed = 0\<rparr>
       \<le> total \<lparr>total = 1, success = 0, skipped = 0, failed = 0\<rparr>"
proof -
  let ?S = "\<lparr>total = 1, success = 0, skipped = 0, failed = 0\<rparr>"
  let ?W = "snd (main racing_env empty_world)"
  from racing_run have run: "main racing_env empty_world = (Inr (), ?W)"
    by (metis prod.collapse)
  have tr: "trace ?W = trace empty_world @ trace ?W"
    by (simp add: empty_world_def)
  have "Log INFO (Summary ?S (Some 0) ''transcripts'') \<in> set (filter is_summary (trace ?W))"
    using racing_run by simp
  then have mem: "Log INFO (Summary ?S (Some 0) ''transcripts'') \<in> set (trace ?W)"
    by simp
  from counters_bounded_by_total [of racing_env empty_world "Inr ()" ?W "trace ?W" INFO ?S "Some 0" "''transcripts''"]
    run tr mem
  have "success ?S + skipped ?S + failed ?S \<le> total ?S" by blast
  with run mem show ?thesis by blast
qed

text \<open>
  Claim C5. When the configured playlist URL does not match the pattern, every run of
  \<open>main\<close> stops before the loop over the videos: the files are as before, and among the
  events of the run there is no fetch, sleep, open or write, no log line of the
  processing of a video, and no summary.
\<close>

theorem invalid_url_aborts:
  assumes bad: "\<not> re_match (playlist_pattern (unicode_word E)) (PLAYLIST_URL (cfg E))"
    and run: "main E w = (r, w')"
  shows "files w' = files w
       \<and> (\<exists>evs. trace w' = trace w @ evs \<and> (\<forall>e \<in> set evs. \<not> per_item_event e \<and> \<not> is_summary e))"
proof -
  from bad have fp: "fetch_playlist E (PLAYLIST_URL (cfg E)) w2
      = (Inr None, logger ERROR (PlaylistError (''Invalid playlist URL format: '' @ PLAYLIST_URL (cfg E))) w2)" for w2
    by (simp add: fetch_playlist_def validate_playlist_url_def)
  from run show ?thesis
    unfolding main_def fp
    by (auto simp add: makedirs_def initialize_api_def logger_def emit_def Let_def
          split: option.splits sum.splits if_splits)
qed

theorem invalid_url_aborts_witness:
  "\<not> re_match (playlist_pattern (unicode_word bad_url_env)) (PLAYLIST_URL (cfg bad_url_env))
   \<and> fst (main bad_url_env done_world) = Inr ()
   \<and> files (snd (main bad_url_env done_world)) = files done_world
   \<and> filter per_item_event (trace (snd (main bad_url_env done_world))) = []
   \<and> filter is_summary (trace (snd (main bad_url_env done_world))) = []"
proof -
  have bad: "\<not> re_match (playlist_pattern (unicode_word bad_url_env)) (PLAYLIST_URL (cfg bad_url_env))"
    by (simp add: bad_url_env_def online_env_def offline_env_def default_config_def
          playlist_pattern_def opt_def plus_rx_def word_char_def)
  have run: "main bad_url_env done_world = (fst (main bad_url_env done_world), snd (main bad_url_env done_world))"
    by simp
  have ok: "fst (main bad_url_env done_world) = Inr ()"
    using bad
    by (simp add: main_def makedirs_def initialize_api_def fetch_playlist_def validate_playlist_url_def
          bad_url_env_def online_env_def offline_env_def default_config_def Let_def)
  from invalid_url_aborts [OF bad run]
  obtain evs where f: "files (snd (main bad_url_env done_world)) = files done_world"
    and t: "trace (snd (main bad_url_env done_world)) = trace done_world @ evs"
    and n: "\<forall>e \<in> set evs. \<not> per_item_event e \<and> \<not> is_summary e"
    by blast
  from t have t': "trace (snd (main bad_url_env done_world)) = evs"
    by (simp add: done_world_def)
  from n have "filter per_item_event evs = []" "filter is_summary evs = []"
    by (simp_all add: filter_empty_conv)
  with bad ok f t' show ?thesis by simp
qed

end
